theory Spec2Isabelle
  imports Main "HOL-Library.Word"
begin

section \<open>The interactive judge of \<^verbatim>\<open>contest_template/cpp/tester.cpp\<close>\<close>

text \<open>
  The program is one class, \<^verbatim>\<open>JudgeInterface\<close>, and a \<^verbatim>\<open>main\<close> that plays a
  number-guessing game with it. The class counts the lines it reads from standard input
  against a limit and ends the process with \<^verbatim>\<open>exit(0)\<close> or \<^verbatim>\<open>exit(1)\<close>.

  The embedding makes the process state explicit: the two \<^verbatim>\<open>int\<close> fields of the
  judge object (32-bit words read as two's complement), the bytes that standard input will
  still deliver together with the two state flags of \<^verbatim>\<open>cin\<close> that \<^verbatim>\<open>getline\<close>
  reads and writes, and the bytes written so far to \<^verbatim>\<open>cout\<close> and \<^verbatim>\<open>cerr\<close>.
  A call either returns, ends the process with a status, or throws.

  Assumptions of the model: standard input is a finite sequence of bytes followed by end of
  file (a peer that keeps the pipe open and silent forever is not modelled); writes to
  \<^verbatim>\<open>cout\<close> and \<^verbatim>\<open>cerr\<close> succeed; the C locale classifies characters; memory
  allocation does not fail.
\<close>

subsection \<open>Data\<close>

type_synonym int32 = "32 word"

record JudgeInterface =
  query_count :: int32
  max_queries :: int32

text \<open>
  \<^verbatim>\<open>cin\<close>: the bytes not yet extracted, and \<^verbatim>\<open>eofbit\<close> and \<^verbatim>\<open>failbit\<close> of the
  stream state.
\<close>

record istream =
  buf :: string
  eofbit :: bool
  failbit :: bool

record process =
  judge :: JudgeInterface
  cin :: istream
  cout :: string
  cerr :: string

text \<open>The exceptions of \<^verbatim>\<open>std::stoi\<close>.\<close>

datatype exn = Invalid_argument | Out_of_range

text \<open>
  What a call does to the process: it returns a value, it ends the process through
  \<^verbatim>\<open>exit\<close> with a status, or an exception leaves it.
\<close>

datatype 'a outcome =
    Returned 'a process
  | Exited int process
  | Thrown exn process

subsection \<open>String literals of the source\<close>

text \<open>
  The source is UTF-8; a \<^typ>\<open>string\<close> is a list of bytes, so every Japanese literal is
  written out byte by byte.
\<close>

definition newline :: char where
  "newline = CHR 0x0A"

text \<open>"kueri seigen chouka": query limit exceeded.\<close>

definition msg_query_limit :: string where
  "msg_query_limit =
     [CHR 0xE3, CHR 0x82, CHR 0xAF, CHR 0xE3, CHR 0x82, CHR 0xA8, CHR 0xE3, CHR 0x83,
      CHR 0xAA, CHR 0xE5, CHR 0x88, CHR 0xB6, CHR 0xE9, CHR 0x99, CHR 0x90, CHR 0xE8,
      CHR 0xB6, CHR 0x85, CHR 0xE9, CHR 0x81, CHR 0x8E]"

text \<open>"fusei na nyuuryoku desu": the input is invalid.\<close>

definition msg_invalid_input :: string where
  "msg_invalid_input =
     [CHR 0xE4, CHR 0xB8, CHR 0x8D, CHR 0xE6, CHR 0xAD, CHR 0xA3, CHR 0xE3, CHR 0x81,
      CHR 0xAA, CHR 0xE5, CHR 0x85, CHR 0xA5, CHR 0xE5, CHR 0x8A, CHR 0x9B, CHR 0xE3,
      CHR 0x81, CHR 0xA7, CHR 0xE3, CHR 0x81, CHR 0x99]"

text \<open>"seikai desu!": correct.\<close>

definition msg_correct :: string where
  "msg_correct =
     [CHR 0xE6, CHR 0xAD, CHR 0xA3, CHR 0xE8, CHR 0xA7, CHR 0xA3, CHR 0xE3, CHR 0x81,
      CHR 0xA7, CHR 0xE3, CHR 0x81, CHR 0x99, CHR 0xEF, CHR 0xBC, CHR 0x81]"

text \<open>"motto ookii desu": it is bigger.\<close>

definition msg_bigger :: string where
  "msg_bigger =
     [CHR 0xE3, CHR 0x82, CHR 0x82, CHR 0xE3, CHR 0x81, CHR 0xA3, CHR 0xE3, CHR 0x81,
      CHR 0xA8, CHR 0xE5, CHR 0xA4, CHR 0xA7, CHR 0xE3, CHR 0x81, CHR 0x8D, CHR 0xE3,
      CHR 0x81, CHR 0x84, CHR 0xE3, CHR 0x81, CHR 0xA7, CHR 0xE3, CHR 0x81, CHR 0x99]"

text \<open>"motto chiisai desu": it is smaller.\<close>

definition msg_smaller :: string where
  "msg_smaller =
     [CHR 0xE3, CHR 0x82, CHR 0x82, CHR 0xE3, CHR 0x81, CHR 0xA3, CHR 0xE3, CHR 0x81,
      CHR 0xA8, CHR 0xE5, CHR 0xB0, CHR 0x8F, CHR 0xE3, CHR 0x81, CHR 0x95, CHR 0xE3,
      CHR 0x81, CHR 0x84, CHR 0xE3, CHR 0x81, CHR 0xA7, CHR 0xE3, CHR 0x81, CHR 0x99]"

text \<open>The greeting that \<^verbatim>\<open>main\<close> prints first: the game starts, guess a number from 1 to 100.\<close>

definition msg_start :: string where
  "msg_start =
     [CHR 0xE6, CHR 0x95, CHR 0xB0, CHR 0xE5, CHR 0xBD, CHR 0x93, CHR 0xE3, CHR 0x81,
      CHR 0xA6, CHR 0xE3, CHR 0x82, CHR 0xB2, CHR 0xE3, CHR 0x83, CHR 0xBC, CHR 0xE3,
      CHR 0x83, CHR 0xA0, CHR 0xE3, CHR 0x82, CHR 0x92, CHR 0xE9, CHR 0x96, CHR 0x8B,
      CHR 0xE5, CHR 0xA7, CHR 0x8B, CHR 0xE3, CHR 0x81, CHR 0x97, CHR 0xE3, CHR 0x81,
      CHR 0xBE, CHR 0xE3, CHR 0x81, CHR 0x99, CHR 0xE3, CHR 0x80, CHR 0x82, CHR 0x31,
      CHR 0xE3, CHR 0x81, CHR 0x8B, CHR 0xE3, CHR 0x82, CHR 0x89, CHR 0x31, CHR 0x30,
      CHR 0x30, CHR 0xE3, CHR 0x81, CHR 0xAE, CHR 0xE6, CHR 0x95, CHR 0xB0, CHR 0xE5,
      CHR 0xAD, CHR 0x97, CHR 0xE3, CHR 0x82, CHR 0x92, CHR 0xE5, CHR 0xBD, CHR 0x93,
      CHR 0xE3, CHR 0x81, CHR 0xA6, CHR 0xE3, CHR 0x81, CHR 0xA6, CHR 0xE3, CHR 0x81,
      CHR 0x8F, CHR 0xE3, CHR 0x81, CHR 0xA0, CHR 0xE3, CHR 0x81, CHR 0x95, CHR 0xE3,
      CHR 0x81, CHR 0x84, CHR 0xE3, CHR 0x80, CHR 0x82]"

subsection \<open>The standard library calls the program makes\<close>

text \<open>
  \<^verbatim>\<open>getline(cin, input)\<close> on a freshly constructed, empty \<^verbatim>\<open>input\<close>. When the stream
  is not good the sentry sets \<^verbatim>\<open>failbit\<close> and nothing is extracted, so the string stays
  empty. Otherwise bytes are extracted up to the first newline, which is extracted and
  dropped; when end of file comes first, \<^verbatim>\<open>eofbit\<close> is set, and \<^verbatim>\<open>failbit\<close> too when
  no byte was extracted.
\<close>

definition good :: "istream \<Rightarrow> bool" where
  "good s = (\<not> eofbit s \<and> \<not> failbit s)"

definition getline :: "istream \<Rightarrow> string \<times> istream" where
  "getline s =
     (if \<not> good s then ([], s\<lparr>failbit := True\<rparr>)
      else
        let line = takeWhile (\<lambda>c. c \<noteq> newline) (buf s);
            rest = dropWhile (\<lambda>c. c \<noteq> newline) (buf s)
        in case rest of
             [] \<Rightarrow> (line, s\<lparr>buf := [], eofbit := True, failbit := (line = [])\<rparr>)
           | _ # rest' \<Rightarrow> (line, s\<lparr>buf := rest'\<rparr>))"

text \<open>\<^verbatim>\<open>isspace\<close> and \<^verbatim>\<open>isdigit\<close> of the C locale.\<close>

definition isspace :: "char \<Rightarrow> bool" where
  "isspace c = (c \<in> set [CHR 0x20, CHR 0x09, CHR 0x0A, CHR 0x0B, CHR 0x0C, CHR 0x0D])"

definition isdigit :: "char \<Rightarrow> bool" where
  "isdigit c = (48 \<le> (of_char c :: nat) \<and> (of_char c :: nat) \<le> 57)"

definition digit_val :: "char \<Rightarrow> int" where
  "digit_val c = int (of_char c :: nat) - 48"

text \<open>The value of a run of decimal digits, most significant first.\<close>

definition digits_val :: "string \<Rightarrow> int" where
  "digits_val ds = foldl (\<lambda>acc c. 10 * acc + digit_val c) 0 ds"

text \<open>
  \<^verbatim>\<open>std::stoi(str)\<close>, base 10, no position argument: \<^verbatim>\<open>strtol\<close> skips leading white
  space, takes an optional sign and then the longest run of digits. No digit:
  \<^verbatim>\<open>std::invalid_argument\<close>. A value that does not fit \<^verbatim>\<open>int\<close>:
  \<^verbatim>\<open>std::out_of_range\<close>. Whatever follows the digits is ignored.
\<close>

definition stoi :: "string \<Rightarrow> exn + int" where
  "stoi str =
     (let s1 = dropWhile isspace str;
          neg = (case s1 of [] \<Rightarrow> False | c # _ \<Rightarrow> c = CHR ''-'');
          s2 = (case s1 of [] \<Rightarrow> [] | c # r \<Rightarrow> if c = CHR ''-'' \<or> c = CHR ''+'' then r else s1);
          ds = takeWhile isdigit s2;
          v = (if neg then - digits_val ds else digits_val ds)
      in if ds = [] then Inl Invalid_argument
         else if v < - (2 ^ 31) \<or> 2 ^ 31 - 1 < v then Inl Out_of_range
         else Inr v)"

subsection \<open>The class \<^verbatim>\<open>JudgeInterface\<close>\<close>

text \<open>The constructor: no query used, limit 100.\<close>

definition JudgeInterface_init :: JudgeInterface where
  "JudgeInterface_init = \<lparr>query_count = 0, max_queries = 100\<rparr>"

definition set_max_queries :: "int32 \<Rightarrow> process \<Rightarrow> process" where
  "set_max_queries m p = p\<lparr>judge := (judge p)\<lparr>max_queries := m\<rparr>\<rparr>"

text \<open>\<^verbatim>\<open>cout << message << endl\<close>, then a flush.\<close>

definition "output" :: "string \<Rightarrow> process \<Rightarrow> process" where
  "output message p = p\<lparr>cout := cout p @ message @ [newline]\<rparr>"

definition correct_answer :: "process \<Rightarrow> 'a outcome" where
  "correct_answer p = Exited 0 p"

text \<open>\<^verbatim>\<open>cerr << "Wrong Answer: " << message << endl\<close>, then \<^verbatim>\<open>exit(1)\<close>.\<close>

definition wrong_answer :: "string \<Rightarrow> process \<Rightarrow> 'a outcome" where
  "wrong_answer message p =
     Exited 1 (p\<lparr>cerr := cerr p @ ''Wrong Answer: '' @ message @ [newline]\<rparr>)"

text \<open>
  \<^verbatim>\<open>input()\<close>: the limit check comes first, and \<^verbatim>\<open>wrong_answer\<close> does not come back
  from it. The increment is reached only with \<^verbatim>\<open>query_count < max_queries\<close>, so it
  cannot overflow.
\<close>

definition input :: "process \<Rightarrow> string outcome" where
  "input p =
     (if sint (max_queries (judge p)) \<le> sint (query_count (judge p))
      then wrong_answer msg_query_limit p
      else
        let p1 = p\<lparr>judge := (judge p)\<lparr>query_count := query_count (judge p) + 1\<rparr>\<rparr>;
            (line, s) = getline (cin p1)
        in Returned line (p1\<lparr>cin := s\<rparr>))"

subsection \<open>Clients of the class\<close>

text \<open>
  A client of the class is a sequence of calls to its public methods. The sequence stops at
  the first call that ends the process. The text that \<^verbatim>\<open>input()\<close> hands back is the
  client's to use and is dropped here; the stream keeps what was consumed. A client that
  chooses its next call from the lines it has read still makes, on a given standard input,
  one such sequence, so a statement about all sequences and all inputs covers it.
\<close>


datatype call =
    Set_max_queries int32
  | Output string
  | Input
  | Correct_answer
  | Wrong_answer string

fun do_call :: "call \<Rightarrow> process \<Rightarrow> unit outcome" where
  "do_call (Set_max_queries m) p = Returned () (set_max_queries m p)"
| "do_call (Output message) p = Returned () (output message p)"
| "do_call Input p =
     (case input p of
        Returned line p' \<Rightarrow> Returned () p'
      | Exited c p' \<Rightarrow> Exited c p'
      | Thrown e p' \<Rightarrow> Thrown e p')"
| "do_call Correct_answer p = correct_answer p"
| "do_call (Wrong_answer message) p = wrong_answer message p"

fun run :: "call list \<Rightarrow> process \<Rightarrow> unit outcome" where
  "run [] p = Returned () p"
| "run (c # cs) p =
     (case do_call c p of
        Returned u p' \<Rightarrow> run cs p'
      | Exited st p' \<Rightarrow> Exited st p'
      | Thrown e p' \<Rightarrow> Thrown e p')"

definition reads :: "call list \<Rightarrow> nat" where
  "reads cs = length (filter (\<lambda>c. c = Input) cs)"

fun is_io :: "call \<Rightarrow> bool" where
  "is_io (Output message) = True"
| "is_io Input = True"
| "is_io c = False"

definition io_only :: "call list \<Rightarrow> bool" where
  "io_only cs = list_all is_io cs"

fun state_of :: "'a outcome \<Rightarrow> process" where
  "state_of (Returned x p) = p"
| "state_of (Exited st p) = p"
| "state_of (Thrown e p) = p"

subsection \<open>The example driving loop of \<^verbatim>\<open>main\<close>\<close>

definition n :: int where
  "n = 42"

text \<open>The body of the \<^verbatim>\<open>try\<close> block, for the line just read.\<close>

definition try_block :: "string \<Rightarrow> process \<Rightarrow> unit outcome" where
  "try_block line p =
     (case stoi line of
        Inl e \<Rightarrow> Thrown e p
      | Inr guess \<Rightarrow>
          if guess = n then correct_answer (output msg_correct p)
          else if guess < n then Returned () (output msg_bigger p)
          else Returned () (output msg_smaller p))"

text \<open>One turn of \<^verbatim>\<open>while (true)\<close>: the read, the \<^verbatim>\<open>try\<close> block and its catch-all handler.\<close>

definition loop_body :: "process \<Rightarrow> unit outcome" where
  "loop_body p =
     (case input p of
        Returned line p1 \<Rightarrow>
          (case try_block line p1 of
             Thrown e p2 \<Rightarrow> wrong_answer msg_invalid_input p2
           | r \<Rightarrow> r)
      | Exited c p1 \<Rightarrow> Exited c p1
      | Thrown e p1 \<Rightarrow> Thrown e p1)"

text \<open>What is left of the limit; it drops with every turn that comes back.\<close>

definition remaining :: "process \<Rightarrow> nat" where
  "remaining p = nat (sint (max_queries (judge p)) - sint (query_count (judge p)))"

lemma sint_succ_below:
  fixes a b :: int32
  assumes "sint a < sint b"
  shows "sint (a + 1) = sint a + 1"
proof -
  have "sint b < 2 ^ (LENGTH(32) - 1)" by (rule sint_lt)
  moreover have "- (2 ^ (LENGTH(32) - 1)) \<le> sint a" by (rule sint_ge)
  ultimately have "- (2 ^ 31) \<le> sint a + 1" "sint a + 1 < 2 ^ 31"
    using assms by simp_all
  then have "signed_take_bit 31 (sint a + 1) = sint a + 1"
    by (simp add: signed_take_bit_int_eq_self)
  then show ?thesis by (simp add: sint_word_ariths)
qed

lemma output_judge [simp]: "judge (output m p) = judge p"
  by (simp add: output_def)

lemma input_Returned_iff:
  "input p = Returned line p' \<longleftrightarrow>
     sint (query_count (judge p)) < sint (max_queries (judge p)) \<and>
     line = fst (getline (cin p)) \<and>
     p' = p\<lparr>judge := (judge p)\<lparr>query_count := query_count (judge p) + 1\<rparr>,
            cin := snd (getline (cin p))\<rparr>"
  by (auto simp: input_def wrong_answer_def Let_def split: prod.splits)

lemma input_Returned_remaining:
  assumes "input p = Returned line p'"
  shows "remaining p' < remaining p"
proof -
  from assms have lt: "sint (query_count (judge p)) < sint (max_queries (judge p))"
    and p': "judge p' = (judge p)\<lparr>query_count := query_count (judge p) + 1\<rparr>"
    by (simp_all add: input_Returned_iff)
  from lt have "sint (query_count (judge p) + 1) = sint (query_count (judge p)) + 1"
    by (rule sint_succ_below)
  with lt p' show ?thesis by (simp add: remaining_def)
qed

lemma try_block_judge:
  "try_block line p = Returned u p' \<Longrightarrow> judge p' = judge p"
  by (auto simp: try_block_def correct_answer_def split: sum.splits if_splits)

lemma loop_body_Returned_remaining:
  assumes "loop_body p = Returned u p'"
  shows "remaining p' < remaining p"
proof -
  from assms obtain line p1 where i: "input p = Returned line p1"
    and t: "try_block line p1 = Returned u p'"
    by (auto simp: loop_body_def wrong_answer_def split: outcome.splits)
  from t have "remaining p' = remaining p1"
    by (simp add: remaining_def try_block_judge)
  with input_Returned_remaining [OF i] show ?thesis by simp
qed

text \<open>
  \<^verbatim>\<open>while (true) { ... }\<close>: the loop goes round while the body comes back and stops when
  the body ends the process.
\<close>

function main_loop :: "process \<Rightarrow> unit outcome" where
  "main_loop p =
     (case loop_body p of
        Returned u p' \<Rightarrow> main_loop p'
      | Exited c p' \<Rightarrow> Exited c p'
      | Thrown e p' \<Rightarrow> Thrown e p')"
  by pat_completeness auto
termination
  by (relation "measure remaining") (simp_all add: loop_body_Returned_remaining)

declare main_loop.simps [simp del]

text \<open>The process as \<^verbatim>\<open>main\<close> finds it: nothing written yet, standard input to come.\<close>

definition start :: "string \<Rightarrow> process" where
  "start stdin =
     \<lparr>judge = JudgeInterface_init,
      cin = \<lparr>buf = stdin, eofbit = False, failbit = False\<rparr>,
      cout = [], cerr = []\<rparr>"

definition main :: "string \<Rightarrow> unit outcome" where
  "main stdin = main_loop (output msg_start (start stdin))"

section \<open>Properties\<close>

subsection \<open>The two branches of \<^verbatim>\<open>input()\<close>\<close>

lemma input_rejects:
  "sint (max_queries (judge p)) \<le> sint (query_count (judge p)) \<Longrightarrow>
   input p = Exited 1 (p\<lparr>cerr := cerr p @ ''Wrong Answer: '' @ msg_query_limit @ [newline]\<rparr>)"
  by (simp add: input_def wrong_answer_def)

subsection \<open>Changing the limit\<close>

text \<open>
  Claim C9. \<^verbatim>\<open>set_max_queries\<close> validates nothing and leaves \<^verbatim>\<open>query_count\<close> alone:
  for every 32-bit value \<open>m\<close>, negative, zero or below the queries already used, the limit
  becomes \<open>m\<close> and nothing else changes. If the count is then at or above \<open>m\<close>, the next
  \<^verbatim>\<open>input()\<close> ends the process with status 1 and the limit message; standard input,
  standard output and the count are as they were.
\<close>

theorem set_max_queries_unchecked:
  "set_max_queries m p = p\<lparr>judge := (judge p)\<lparr>max_queries := m\<rparr>\<rparr> \<and>
   max_queries (judge (set_max_queries m p)) = m \<and>
   query_count (judge (set_max_queries m p)) = query_count (judge p) \<and>
   cin (set_max_queries m p) = cin p \<and>
   cout (set_max_queries m p) = cout p \<and>
   cerr (set_max_queries m p) = cerr p \<and>
   (sint m \<le> sint (query_count (judge p)) \<longrightarrow>
      input (set_max_queries m p) =
        Exited 1 ((set_max_queries m p)
          \<lparr>cerr := cerr p @ ''Wrong Answer: '' @ msg_query_limit @ [newline]\<rparr>))"
  by (simp add: set_max_queries_def input_def wrong_answer_def)

theorem set_max_queries_unchecked_witness:
  "sint (- 5 :: int32) \<le> sint (query_count (judge (start ''7''))) \<and>
   max_queries (judge (set_max_queries (- 5) (start ''7''))) = - 5 \<and>
   input (set_max_queries (- 5) (start ''7'')) =
     Exited 1 ((set_max_queries (- 5) (start ''7''))
       \<lparr>cerr := cerr (start ''7'') @ ''Wrong Answer: '' @ msg_query_limit @ [newline]\<rparr>)"
proof -
  have h: "sint (- 5 :: int32) \<le> sint (query_count (judge (start ''7'')))"
    by (simp add: start_def JudgeInterface_init_def)
  from set_max_queries_unchecked [of "- 5" "start ''7''"] h show ?thesis
    by blast
qed

lemma reads_simps [simp]:
  "reads [] = 0"
  "reads (Input # cs) = Suc (reads cs)"
  "reads (Output m # cs) = reads cs"
  by (simp_all add: reads_def)

lemma io_only_simps [simp]:
  "io_only []"
  "io_only (c # cs) = (is_io c \<and> io_only cs)"
  by (simp_all add: io_only_def)

lemma io_only_take: "io_only cs \<Longrightarrow> io_only (take i cs)"
  unfolding io_only_def list_all_iff by (auto dest: in_set_takeD)

lemma input_accepts:
  assumes "sint (query_count (judge p)) < sint (max_queries (judge p))"
  shows "input p = Returned (fst (getline (cin p)))
           (p\<lparr>judge := (judge p)\<lparr>query_count := query_count (judge p) + 1\<rparr>,
              cin := snd (getline (cin p))\<rparr>)"
  using assms by (simp add: input_Returned_iff)

lemma run_io_accepts:
  assumes "io_only cs"
    and "sint (query_count (judge p)) + int (reads cs) \<le> sint (max_queries (judge p))"
  shows "\<exists>p'. run cs p = Returned () p' \<and>
           max_queries (judge p') = max_queries (judge p) \<and>
           sint (query_count (judge p')) = sint (query_count (judge p)) + int (reads cs)"
  using assms
proof (induction cs arbitrary: p)
  case Nil
  then show ?case by simp
next
  case (Cons c cs)
  from Cons.prems have io: "is_io c" "io_only cs" by simp_all
  show ?case
  proof (cases c)
    case (Output m)
    with Cons.prems have
      "sint (query_count (judge (output m p))) + int (reads cs)
         \<le> sint (max_queries (judge (output m p)))"
      by simp
    from Cons.IH [OF io(2) this] Output show ?thesis by simp
  next
    case Input
    with Cons.prems have lt: "sint (query_count (judge p)) < sint (max_queries (judge p))"
      by simp
    define p1 where "p1 = p\<lparr>judge := (judge p)\<lparr>query_count := query_count (judge p) + 1\<rparr>,
              cin := snd (getline (cin p))\<rparr>"
    have i: "input p = Returned (fst (getline (cin p))) p1"
      unfolding p1_def by (rule input_accepts [OF lt])
    have s: "sint (query_count (judge p1)) = sint (query_count (judge p)) + 1"
      using sint_succ_below [OF lt] by (simp add: p1_def)
    have m: "max_queries (judge p1) = max_queries (judge p)"
      by (simp add: p1_def)
    from Cons.prems Input s m have
      "sint (query_count (judge p1)) + int (reads cs) \<le> sint (max_queries (judge p1))"
      by simp
    from Cons.IH [OF io(2) this] Input i s m show ?thesis by auto
  qed (use io in simp_all)
qed

lemma run_io_returned:
  assumes "io_only cs"
    and "run cs p = Returned () p'"
  shows "max_queries (judge p') = max_queries (judge p) \<and>
         sint (query_count (judge p')) = sint (query_count (judge p)) + int (reads cs) \<and>
         (sint (query_count (judge p)) \<le> sint (max_queries (judge p)) \<longrightarrow>
          sint (query_count (judge p')) \<le> sint (max_queries (judge p')))"
  using assms
proof (induction cs arbitrary: p)
  case Nil
  then show ?case by simp
next
  case (Cons c cs)
  from Cons.prems have io: "is_io c" "io_only cs" by simp_all
  show ?case
  proof (cases c)
    case (Output m)
    with Cons.prems have "run cs (output m p) = Returned () p'" by simp
    from Cons.IH [OF io(2) this] Output show ?thesis by auto
  next
    case Input
    with Cons.prems obtain line p1 where i: "input p = Returned line p1"
      and r: "run cs p1 = Returned () p'"
      by (auto split: outcome.splits)
    from i have lt: "sint (query_count (judge p)) < sint (max_queries (judge p))"
      and j: "judge p1 = (judge p)\<lparr>query_count := query_count (judge p) + 1\<rparr>"
      by (simp_all add: input_Returned_iff)
    have s: "sint (query_count (judge p1)) = sint (query_count (judge p)) + 1"
      using sint_succ_below [OF lt] by (simp add: j)
    have m: "max_queries (judge p1) = max_queries (judge p)"
      by (simp add: j)
    from Cons.IH [OF io(2) r] Input s m lt show ?thesis by auto
  qed (use io in simp_all)
qed

subsection \<open>The read after the last allowed one\<close>

text \<open>
  Claim C1. Take a fresh judge, any contents of the three streams, and a limit \<open>N > 0\<close> set
  with \<^verbatim>\<open>set_max_queries\<close>. Any client that then only writes and reads, with exactly
  \<open>N\<close> reads, gets all \<open>N\<close> reads accepted, whatever the lines were. The next
  \<^verbatim>\<open>input()\<close> ends the process with status 1 after writing the limit message to
  \<^verbatim>\<open>cerr\<close>; it leaves standard input, standard output and the count as they were, so no
  line is read.
\<close>

theorem input_after_limit_rejected:
  assumes "0 < sint N"
    and "judge p = JudgeInterface_init"
    and "io_only cs"
    and "reads cs = nat (sint N)"
  shows "\<exists>p'. run cs (set_max_queries N p) = Returned () p' \<and>
           sint (query_count (judge p')) = sint N \<and>
           max_queries (judge p') = N \<and>
           input p' =
             Exited 1 (p'\<lparr>cerr := cerr p' @ ''Wrong Answer: '' @ msg_query_limit @ [newline]\<rparr>) \<and>
           cin (state_of (input p')) = cin p' \<and>
           cout (state_of (input p')) = cout p' \<and>
           judge (state_of (input p')) = judge p'"
proof -
  let ?p0 = "set_max_queries N p"
  from assms(2) have j0: "query_count (judge ?p0) = 0" "max_queries (judge ?p0) = N"
    by (simp_all add: set_max_queries_def JudgeInterface_init_def)
  with assms(1,4) have
    "sint (query_count (judge ?p0)) + int (reads cs) \<le> sint (max_queries (judge ?p0))"
    by simp
  from run_io_accepts [OF assms(3) this] obtain p' where
    r: "run cs ?p0 = Returned () p'" and m: "max_queries (judge p') = N"
    and c: "sint (query_count (judge p')) = sint N"
    using j0 assms(1,4) by auto
  from m c have "sint (max_queries (judge p')) \<le> sint (query_count (judge p'))" by simp
  from input_rejects [OF this] have
    i: "input p' =
          Exited 1 (p'\<lparr>cerr := cerr p' @ ''Wrong Answer: '' @ msg_query_limit @ [newline]\<rparr>)" .
  then have "cin (state_of (input p')) = cin p'" "cout (state_of (input p')) = cout p'"
    "judge (state_of (input p')) = judge p'"
    by simp_all
  with i r m c show ?thesis by blast
qed

theorem input_after_limit_rejected_witness:
  "\<exists>p'. run [Input, Output ''hi'', Input]
          (set_max_queries 2 (start (''10'' @ [newline] @ ''20'' @ [newline] @ ''30''))) =
          Returned () p' \<and>
        sint (query_count (judge p')) = sint (2 :: int32) \<and>
        max_queries (judge p') = 2 \<and>
        input p' =
          Exited 1 (p'\<lparr>cerr := cerr p' @ ''Wrong Answer: '' @ msg_query_limit @ [newline]\<rparr>) \<and>
        cin (state_of (input p')) = cin p' \<and>
        cout (state_of (input p')) = cout p' \<and>
        judge (state_of (input p')) = judge p'"
proof -
  have "0 < sint (2 :: int32)" by simp
  moreover have "judge (start (''10'' @ [newline] @ ''20'' @ [newline] @ ''30'')) = JudgeInterface_init"
    by (simp add: start_def)
  moreover have "io_only [Input, Output ''hi'', Input]" by simp
  moreover have "reads [Input, Output ''hi'', Input] = nat (sint (2 :: int32))" by simp
  ultimately show ?thesis by (rule input_after_limit_rejected)
qed

lemma run_io_bound:
  assumes "io_only cs"
    and "sint (query_count (judge p)) \<le> sint (max_queries (judge p))"
  shows "max_queries (judge (state_of (run cs p))) = max_queries (judge p) \<and>
         sint (query_count (judge (state_of (run cs p))))
           \<le> sint (max_queries (judge p))"
  using assms
proof (induction cs arbitrary: p)
  case Nil
  then show ?case by simp
next
  case (Cons c cs)
  from Cons.prems have io: "is_io c" "io_only cs" by simp_all
  show ?case
  proof (cases c)
    case (Output m)
    from Cons.prems have
      "sint (query_count (judge (output m p))) \<le> sint (max_queries (judge (output m p)))"
      by simp
    from Cons.IH [OF io(2) this] Output show ?thesis by simp
  next
    case Input
    show ?thesis
    proof (cases "sint (query_count (judge p)) < sint (max_queries (judge p))")
      case True
      define p1 where "p1 = p\<lparr>judge := (judge p)\<lparr>query_count := query_count (judge p) + 1\<rparr>,
              cin := snd (getline (cin p))\<rparr>"
      have i: "input p = Returned (fst (getline (cin p))) p1"
        unfolding p1_def by (rule input_accepts [OF True])
      have s: "sint (query_count (judge p1)) = sint (query_count (judge p)) + 1"
        using sint_succ_below [OF True] by (simp add: p1_def)
      have m: "max_queries (judge p1) = max_queries (judge p)"
        by (simp add: p1_def)
      from s m True have "sint (query_count (judge p1)) \<le> sint (max_queries (judge p1))"
        by simp
      from Cons.IH [OF io(2) this] Input i m show ?thesis by simp
    next
      case False
      then have "sint (max_queries (judge p)) \<le> sint (query_count (judge p))" by simp
      from input_rejects [OF this] Input Cons.prems(2) show ?thesis by simp
    qed
  qed (use io in simp_all)
qed

subsection \<open>The count of accepted reads\<close>

text \<open>
  Claim C2. Take a fresh judge, a limit \<open>N \<ge> 0\<close> set before any read, and a client that
  only writes and reads. If all its calls come back, \<^verbatim>\<open>query_count\<close> is the number of
  its reads. After every prefix of its calls, whether the prefix came back or ended the
  process, \<^verbatim>\<open>query_count\<close> is at most the limit, which is still \<open>N\<close>. In any state, a
  read is accepted only when \<^verbatim>\<open>query_count \<le> max_queries\<close> held before it, and a state
  with \<^verbatim>\<open>query_count > max_queries\<close> makes \<^verbatim>\<open>input()\<close> end the process at once with
  status 1 and the limit message.
\<close>

theorem query_count_counts_reads:
  assumes "0 \<le> sint N"
    and "judge p = JudgeInterface_init"
    and "io_only cs"
  shows "(\<forall>p'. run cs (set_max_queries N p) = Returned () p' \<longrightarrow>
            sint (query_count (judge p')) = int (reads cs)) \<and>
         (\<forall>i. sint (query_count (judge (state_of (run (take i cs) (set_max_queries N p)))))
                 \<le> sint (max_queries (judge (state_of (run (take i cs) (set_max_queries N p))))) \<and>
              max_queries (judge (state_of (run (take i cs) (set_max_queries N p)))) = N) \<and>
         (\<forall>q line q'. input q = Returned line q' \<longrightarrow>
            sint (query_count (judge q)) \<le> sint (max_queries (judge q))) \<and>
         (\<forall>q. sint (max_queries (judge q)) < sint (query_count (judge q)) \<longrightarrow>
            input q =
              Exited 1 (q\<lparr>cerr := cerr q @ ''Wrong Answer: '' @ msg_query_limit @ [newline]\<rparr>))"
proof -
  let ?p0 = "set_max_queries N p"
  from assms(2) have j0: "query_count (judge ?p0) = 0" "max_queries (judge ?p0) = N"
    by (simp_all add: set_max_queries_def JudgeInterface_init_def)
  with assms(1) have le0: "sint (query_count (judge ?p0)) \<le> sint (max_queries (judge ?p0))"
    by simp
  have a: "\<forall>p'. run cs ?p0 = Returned () p' \<longrightarrow> sint (query_count (judge p')) = int (reads cs)"
    using run_io_returned [OF assms(3)] j0 by simp
  have b: "\<forall>i. sint (query_count (judge (state_of (run (take i cs) ?p0))))
                 \<le> sint (max_queries (judge (state_of (run (take i cs) ?p0)))) \<and>
              max_queries (judge (state_of (run (take i cs) ?p0))) = N"
  proof
    fix i
    from run_io_bound [OF io_only_take [OF assms(3)] le0, of i] j0
    show "sint (query_count (judge (state_of (run (take i cs) ?p0))))
                 \<le> sint (max_queries (judge (state_of (run (take i cs) ?p0)))) \<and>
              max_queries (judge (state_of (run (take i cs) ?p0))) = N"
      by simp
  qed
  have c: "\<forall>q line q'. input q = Returned line q' \<longrightarrow>
            sint (query_count (judge q)) \<le> sint (max_queries (judge q))"
    by (simp add: input_Returned_iff)
  have d: "\<forall>q. sint (max_queries (judge q)) < sint (query_count (judge q)) \<longrightarrow>
            input q =
              Exited 1 (q\<lparr>cerr := cerr q @ ''Wrong Answer: '' @ msg_query_limit @ [newline]\<rparr>)"
    by (simp add: input_rejects)
  from a b c d show ?thesis by blast
qed

theorem query_count_counts_reads_witness:
  "(\<exists>p'. run [Input, Output ''ok'', Input, Input]
            (set_max_queries 5 (start (''1'' @ [newline] @ ''2'' @ [newline]))) = Returned () p' \<and>
          sint (query_count (judge p')) = 3) \<and>
   sint (query_count (judge (state_of (run (take 2 [Input, Output ''ok'', Input, Input])
            (set_max_queries 5 (start (''1'' @ [newline] @ ''2'' @ [newline])))))))
     \<le> sint (5 :: int32) \<and>
   input (start [] \<lparr>judge := \<lparr>query_count = 3, max_queries = 2\<rparr>\<rparr>) =
     Exited 1 (start [] \<lparr>judge := \<lparr>query_count = 3, max_queries = 2\<rparr>,
                         cerr := ''Wrong Answer: '' @ msg_query_limit @ [newline]\<rparr>)"
proof -
  let ?cs = "[Input, Output ''ok'', Input, Input]"
  let ?p = "start (''1'' @ [newline] @ ''2'' @ [newline])"
  let ?q = "start [] \<lparr>judge := \<lparr>query_count = 3, max_queries = 2\<rparr>\<rparr>"
  have h1: "0 \<le> sint (5 :: int32)" by simp
  have h2: "judge ?p = JudgeInterface_init" by (simp add: start_def)
  have h3: "io_only ?cs" by simp
  note t = query_count_counts_reads [OF h1 h2 h3]
  have "sint (query_count (judge (set_max_queries 5 ?p))) + int (reads ?cs)
          \<le> sint (max_queries (judge (set_max_queries 5 ?p)))"
    by (simp add: set_max_queries_def start_def JudgeInterface_init_def)
  from run_io_accepts [OF h3 this] obtain p' where
    r: "run ?cs (set_max_queries 5 ?p) = Returned () p'" by blast
  with t have "sint (query_count (judge p')) = int (reads ?cs)" by blast
  with r have a: "\<exists>p'. run ?cs (set_max_queries 5 ?p) = Returned () p' \<and>
          sint (query_count (judge p')) = 3"
    by simp
  from t have b1: "sint (query_count (judge (state_of (run (take 2 ?cs) (set_max_queries 5 ?p)))))
     \<le> sint (max_queries (judge (state_of (run (take 2 ?cs) (set_max_queries 5 ?p)))))"
    and b2: "max_queries (judge (state_of (run (take 2 ?cs) (set_max_queries 5 ?p)))) = 5"
    by blast+
  from b1 have b: "sint (query_count (judge (state_of (run (take 2 ?cs) (set_max_queries 5 ?p)))))
     \<le> sint (5 :: int32)"
    by (simp only: b2)
  have "sint (max_queries (judge ?q)) < sint (query_count (judge ?q))" by simp
  with t have "input ?q =
      Exited 1 (?q\<lparr>cerr := cerr ?q @ ''Wrong Answer: '' @ msg_query_limit @ [newline]\<rparr>)"
    by blast
  then have c: "input ?q =
     Exited 1 (start [] \<lparr>judge := \<lparr>query_count = 3, max_queries = 2\<rparr>,
                         cerr := ''Wrong Answer: '' @ msg_query_limit @ [newline]\<rparr>)"
    by (simp add: start_def)
  from a b c show ?thesis by blast
qed

lemma wrong_answer_status:
  "(wrong_answer m p :: 'a outcome) = Exited st q \<Longrightarrow> st = 1"
  by (simp add: wrong_answer_def)

lemma wrong_answer_not_Returned [simp]:
  "(wrong_answer m p :: 'a outcome) \<noteq> Returned x q"
  "(wrong_answer m p :: 'a outcome) \<noteq> Thrown e q"
  by (simp_all add: wrong_answer_def)

lemma correct_answer_simps [simp]:
  "(correct_answer p :: 'a outcome) \<noteq> Returned x q"
  "(correct_answer p :: 'a outcome) \<noteq> Thrown e q"
  "((correct_answer p :: 'a outcome) = Exited st q) = (st = 0 \<and> q = p)"
  by (auto simp: correct_answer_def)

lemma input_cases:
  "(\<exists>line p'. input p = Returned line p') \<or> input p = wrong_answer msg_query_limit p"
  by (simp add: input_def split: prod.splits)

lemma loop_body_cases:
  "(\<exists>p'. loop_body p = Returned () p') \<or>
   (\<exists>q. loop_body p = correct_answer q) \<or>
   (\<exists>m q. loop_body p = wrong_answer m q)"
proof -
  from input_cases [of p] show ?thesis
  proof (elim disjE exE)
    fix line p1
    assume i: "input p = Returned line p1"
    show ?thesis
    proof (cases "stoi line")
      case (Inl e)
      with i have "loop_body p = wrong_answer msg_invalid_input p1"
        by (simp add: loop_body_def try_block_def)
      then show ?thesis by blast
    next
      case (Inr g)
      with i have
        "loop_body p = Returned () (output msg_bigger p1) \<or>
         loop_body p = Returned () (output msg_smaller p1) \<or>
         loop_body p = correct_answer (output msg_correct p1)"
        by (simp add: loop_body_def try_block_def correct_answer_def)
      then show ?thesis by blast
    qed
  next
    assume "input p = wrong_answer msg_query_limit p"
    then have "loop_body p = wrong_answer msg_query_limit p"
      by (simp add: loop_body_def wrong_answer_def)
    then show ?thesis by blast
  qed
qed

lemma main_loop_exits:
  "(\<exists>q. main_loop p = correct_answer q) \<or> (\<exists>m q. main_loop p = wrong_answer m q)"
proof (induction p rule: main_loop.induct)
  case (1 p)
  from loop_body_cases [of p] show ?case
  proof (elim disjE exE)
    fix p'
    assume r: "loop_body p = Returned () p'"
    from "1.IH" [OF r] r show ?thesis by (simp add: main_loop.simps [of p])
  next
    fix q
    assume "loop_body p = correct_answer q"
    then have "main_loop p = correct_answer q"
      by (simp add: main_loop.simps [of p] correct_answer_def)
    then show ?thesis by blast
  next
    fix m q
    assume "loop_body p = wrong_answer m q"
    then have "main_loop p = wrong_answer m q"
      by (simp add: main_loop.simps [of p] wrong_answer_def)
    then show ?thesis by blast
  qed
qed

lemma do_call_cases:
  "(\<exists>p'. do_call c p = Returned () p') \<or>
   (c = Correct_answer \<and> do_call c p = correct_answer p) \<or>
   (\<exists>m. do_call c p = wrong_answer m p)"
proof (cases c)
  case Input
  from input_cases [of p] show ?thesis
  proof (elim disjE exE)
    fix line p'
    assume "input p = Returned line p'"
    with Input show ?thesis by simp
  next
    assume "input p = wrong_answer msg_query_limit p"
    with Input have "do_call c p = wrong_answer msg_query_limit p"
      by (simp add: wrong_answer_def)
    then show ?thesis by blast
  qed
qed auto

lemma run_cases:
  "(\<exists>p'. run cs p = Returned () p') \<or>
   (\<exists>q. run cs p = correct_answer q) \<or>
   (\<exists>m q. run cs p = wrong_answer m q)"
proof (induction cs arbitrary: p)
  case Nil
  then show ?case by simp
next
  case (Cons c cs)
  from do_call_cases [of c p] show ?case
  proof (elim disjE exE conjE)
    fix p'
    assume "do_call c p = Returned () p'"
    with Cons.IH [of p'] show ?thesis by simp
  next
    assume "do_call c p = correct_answer p"
    then have "run (c # cs) p = correct_answer p" by (simp add: correct_answer_def)
    then show ?thesis by blast
  next
    fix m
    assume "do_call c p = wrong_answer m p"
    then have "run (c # cs) p = wrong_answer m p" by (simp add: wrong_answer_def)
    then show ?thesis by blast
  qed
qed

subsection \<open>How the process ends\<close>

text \<open>
  Claim C3. \<^verbatim>\<open>correct_answer\<close> ends the process with status 0 and \<^verbatim>\<open>wrong_answer\<close> with
  status 1, which is not 0. Calls that follow either of them in a client are not executed:
  the state at the exit is final. Every client and the example loop end the process, if at
  all, with status 0 through \<^verbatim>\<open>correct_answer\<close> or with a non-zero status through
  \<^verbatim>\<open>wrong_answer\<close>; no exception leaves them; and the example loop always ends the process.
\<close>

theorem exit_only_by_verdict:
  "(correct_answer p :: 'a outcome) = Exited 0 p \<and>
   (wrong_answer reason p :: 'a outcome) =
      Exited 1 (p\<lparr>cerr := cerr p @ ''Wrong Answer: '' @ reason @ [newline]\<rparr>) \<and>
   (\<forall>st q. (wrong_answer reason p :: 'a outcome) = Exited st q \<longrightarrow> st \<noteq> 0) \<and>
   run (Correct_answer # cs) p = Exited 0 p \<and>
   run (Wrong_answer reason # cs) p =
      Exited 1 (p\<lparr>cerr := cerr p @ ''Wrong Answer: '' @ reason @ [newline]\<rparr>) \<and>
   (\<forall>st q. run cs p = Exited st q \<longrightarrow>
      (st = 0 \<and> run cs p = correct_answer q) \<or>
      (st \<noteq> 0 \<and> (\<exists>m q0. run cs p = wrong_answer m q0))) \<and>
   (\<forall>e q. run cs p \<noteq> Thrown e q) \<and>
   (\<exists>st q. main_loop p = Exited st q \<and>
      ((st = 0 \<and> main_loop p = correct_answer q) \<or>
       (st \<noteq> 0 \<and> (\<exists>m q0. main_loop p = wrong_answer m q0))))"
proof -
  have a: "(correct_answer p :: 'a outcome) = Exited 0 p"
    by (simp add: correct_answer_def)
  have b: "(wrong_answer reason p :: 'a outcome) =
      Exited 1 (p\<lparr>cerr := cerr p @ ''Wrong Answer: '' @ reason @ [newline]\<rparr>)"
    by (simp add: wrong_answer_def)
  have c: "\<forall>st q. (wrong_answer reason p :: 'a outcome) = Exited st q \<longrightarrow> st \<noteq> 0"
    by (simp add: wrong_answer_def)
  have d: "run (Correct_answer # cs) p = Exited 0 p"
    by (simp add: correct_answer_def)
  have e: "run (Wrong_answer reason # cs) p =
      Exited 1 (p\<lparr>cerr := cerr p @ ''Wrong Answer: '' @ reason @ [newline]\<rparr>)"
    by (simp add: wrong_answer_def)
  have f: "\<forall>st q. run cs p = Exited st q \<longrightarrow>
      (st = 0 \<and> run cs p = correct_answer q) \<or>
      (st \<noteq> 0 \<and> (\<exists>m q0. run cs p = wrong_answer m q0))"
  proof (intro allI impI)
    fix st q
    assume x: "run cs p = Exited st q"
    from run_cases [of cs p] show
      "(st = 0 \<and> run cs p = correct_answer q) \<or>
       (st \<noteq> 0 \<and> (\<exists>m q0. run cs p = wrong_answer m q0))"
    proof (elim disjE exE)
      fix p'
      assume "run cs p = Returned () p'"
      with x show ?thesis by simp
    next
      fix q0
      assume "run cs p = correct_answer q0"
      with x show ?thesis by simp
    next
      fix m q0
      assume y: "run cs p = wrong_answer m q0"
      with x have "st = 1" by (simp add: wrong_answer_status)
      with y show ?thesis by auto
    qed
  qed
  have g: "\<forall>e q. run cs p \<noteq> Thrown e q"
    using run_cases [of cs p] by auto
  have h: "\<exists>st q. main_loop p = Exited st q \<and>
      ((st = 0 \<and> main_loop p = correct_answer q) \<or>
       (st \<noteq> 0 \<and> (\<exists>m q0. main_loop p = wrong_answer m q0)))"
  proof -
    from main_loop_exits [of p] show ?thesis
    proof (elim disjE exE)
      fix q
      assume "main_loop p = correct_answer q"
      then show ?thesis by (simp add: correct_answer_def)
    next
      fix m q
      assume y: "main_loop p = wrong_answer m q"
      obtain q' where w: "(wrong_answer m q :: unit outcome) = Exited 1 q'"
        by (simp add: wrong_answer_def)
      with y have x1: "main_loop p = Exited 1 q'" by (simp only:)
      from y have x2: "\<exists>m q0. main_loop p = wrong_answer m q0" by blast
      have x3: "(1::int) \<noteq> 0" by simp
      from x1 x2 x3 show ?thesis by blast
    qed
  qed
  from a b c d e f g h show ?thesis by blast
qed

theorem exit_only_by_verdict_witness:
  "run [Output ''a'', Wrong_answer ''no'', Output ''b''] (start ''x'') =
     Exited 1 ((output ''a'' (start ''x''))\<lparr>cerr := ''Wrong Answer: no'' @ [newline]\<rparr>) \<and>
   (\<exists>m q0. run [Output ''a'', Wrong_answer ''no'', Output ''b''] (start ''x'') =
      wrong_answer m q0) \<and>
   run [Correct_answer, Input] (start ''x'') = Exited 0 (start ''x'')"
proof -
  let ?cs = "[Output ''a'', Wrong_answer ''no'', Output ''b'']"
  have r: "run ?cs (start ''x'') =
     Exited 1 ((output ''a'' (start ''x''))\<lparr>cerr := ''Wrong Answer: no'' @ [newline]\<rparr>)"
    by (simp add: wrong_answer_def output_def start_def)
  have x: "(1::int) \<noteq> 0" by simp
  from exit_only_by_verdict [of "start ''x''" "''no''" ?cs] r x
  have w: "\<exists>m q0. run ?cs (start ''x'') = wrong_answer m q0"
    by blast
  from exit_only_by_verdict [of "start ''x''" "''no''" "[Input]"]
  have c: "run [Correct_answer, Input] (start ''x'') = Exited 0 (start ''x'')"
    by blast
  from r w c show ?thesis by blast
qed

lemma getline_line:
  assumes "good s" and "buf s = l @ newline # rest" and "newline \<notin> set l"
  shows "getline s = (l, s\<lparr>buf := rest\<rparr>)"
proof -
  from assms(3) have "\<forall>c\<in>set l. c \<noteq> newline" by auto
  then have "takeWhile (\<lambda>c. c \<noteq> newline) (l @ newline # rest) = l"
    and "dropWhile (\<lambda>c. c \<noteq> newline) (l @ newline # rest) = newline # rest"
    by (simp_all add: takeWhile_append2 dropWhile_append2)
  with assms(1,2) show ?thesis by (simp add: getline_def)
qed

lemma getline_last:
  assumes "good s" and "newline \<notin> set (buf s)"
  shows "getline s = (buf s, s\<lparr>buf := [], eofbit := True, failbit := (buf s = [])\<rparr>)"
proof -
  from assms(2) have "\<forall>c\<in>set (buf s). c \<noteq> newline" by auto
  then have tw: "takeWhile (\<lambda>c. c \<noteq> newline) (buf s) = buf s"
    and dw: "dropWhile (\<lambda>c. c \<noteq> newline) (buf s) = []"
    by simp_all
  from assms(1) show ?thesis by (simp add: getline_def tw dw Let_def)
qed

lemma getline_empty:
  "buf s = [] \<Longrightarrow> fst (getline s) = [] \<and> buf (snd (getline s)) = [] \<and> failbit (snd (getline s))"
  by (cases "good s") (simp_all add: getline_def)

subsection \<open>An accepted read\<close>

text \<open>
  Claim C4. A call of \<^verbatim>\<open>input()\<close> with \<^verbatim>\<open>query_count < max_queries\<close> comes back, with
  \<^verbatim>\<open>query_count\<close> one higher (no wrap-around) and the limit, \<^verbatim>\<open>cout\<close> and \<^verbatim>\<open>cerr\<close>
  unchanged. When the stream is good and holds a line \<open>l\<close>, its newline and then
  \<open>rest\<close>, the call returns \<open>l\<close> without the newline and leaves exactly \<open>rest\<close> in the
  stream. A last line without a newline is returned whole and empties the stream.
\<close>

theorem input_reads_one_line:
  assumes "sint (query_count (judge p)) < sint (max_queries (judge p))"
  shows "\<exists>line p'. input p = Returned line p' \<and>
           query_count (judge p') = query_count (judge p) + 1 \<and>
           sint (query_count (judge p')) = sint (query_count (judge p)) + 1 \<and>
           max_queries (judge p') = max_queries (judge p) \<and>
           cout p' = cout p \<and> cerr p' = cerr p \<and>
           (\<forall>l rest. good (cin p) \<and> buf (cin p) = l @ newline # rest \<and> newline \<notin> set l \<longrightarrow>
              line = l \<and> cin p' = (cin p)\<lparr>buf := rest\<rparr>) \<and>
           (good (cin p) \<and> buf (cin p) \<noteq> [] \<and> newline \<notin> set (buf (cin p)) \<longrightarrow>
              line = buf (cin p) \<and> buf (cin p') = [])"
proof -
  define line where "line = fst (getline (cin p))"
  define p' where "p' = p\<lparr>judge := (judge p)\<lparr>query_count := query_count (judge p) + 1\<rparr>,
              cin := snd (getline (cin p))\<rparr>"
  have i: "input p = Returned line p'"
    unfolding line_def p'_def by (rule input_accepts [OF assms])
  have c: "query_count (judge p') = query_count (judge p) + 1"
    by (simp add: p'_def)
  have s: "sint (query_count (judge p')) = sint (query_count (judge p)) + 1"
    using sint_succ_below [OF assms] by (simp add: p'_def)
  have f: "max_queries (judge p') = max_queries (judge p)" "cout p' = cout p" "cerr p' = cerr p"
    by (simp_all add: p'_def)
  have l1: "\<forall>l rest. good (cin p) \<and> buf (cin p) = l @ newline # rest \<and> newline \<notin> set l \<longrightarrow>
              line = l \<and> cin p' = (cin p)\<lparr>buf := rest\<rparr>"
    by (auto simp: line_def p'_def getline_line)
  have l2: "good (cin p) \<and> buf (cin p) \<noteq> [] \<and> newline \<notin> set (buf (cin p)) \<longrightarrow>
              line = buf (cin p) \<and> buf (cin p') = []"
    by (auto simp: line_def p'_def getline_last)
  from i c s f l1 l2 show ?thesis by blast
qed

theorem input_reads_one_line_witness:
  "\<exists>p'. input (start (''50'' @ [newline] @ ''70'' @ [newline])) = Returned ''50'' p' \<and>
        query_count (judge p') = 1 \<and>
        cin p' = \<lparr>buf = ''70'' @ [newline], eofbit = False, failbit = False\<rparr>"
proof -
  let ?p = "start (''50'' @ [newline] @ ''70'' @ [newline])"
  have h: "sint (query_count (judge ?p)) < sint (max_queries (judge ?p))"
    by (simp add: start_def JudgeInterface_init_def)
  have g: "good (cin ?p)" by (simp add: start_def good_def)
  have b: "buf (cin ?p) = ''50'' @ newline # (''70'' @ [newline])" by (simp add: start_def)
  have n: "newline \<notin> set ''50''" by (simp add: newline_def)
  from input_reads_one_line [OF h] obtain line p' where
    i: "input ?p = Returned line p'"
    and c: "query_count (judge p') = query_count (judge ?p) + 1"
    and l: "\<forall>l rest. good (cin ?p) \<and> buf (cin ?p) = l @ newline # rest \<and> newline \<notin> set l \<longrightarrow>
              line = l \<and> cin p' = (cin ?p)\<lparr>buf := rest\<rparr>"
    by blast
  from l g b n have "line = ''50''" "cin p' = (cin ?p)\<lparr>buf := ''70'' @ [newline]\<rparr>"
    by blast+
  with i c show ?thesis by (simp add: start_def JudgeInterface_init_def)
qed

lemma loop_body_not_Thrown: "loop_body p \<noteq> Thrown e q"
  using loop_body_cases [of p] by auto

lemma main_loop_not_Thrown: "main_loop p \<noteq> Thrown e q"
  using main_loop_exits [of p] by auto

lemma loop_body_parse_failure:
  assumes "input p = Returned line p1" and "stoi line = Inl e"
  shows "loop_body p = wrong_answer msg_invalid_input p1"
  using assms by (simp add: loop_body_def try_block_def)

lemma main_loop_Exited:
  "loop_body p = Exited st q \<Longrightarrow> main_loop p = Exited st q"
  by (simp add: main_loop.simps [of p])

lemma main_loop_Returned:
  "loop_body p = Returned u p' \<Longrightarrow> main_loop p = main_loop p'"
  by (simp add: main_loop.simps [of p])

subsection \<open>A line that is not a number\<close>

text \<open>
  Claim C5. Whenever the line just read makes \<^verbatim>\<open>stoi\<close> throw, for want of a digit or for
  a value out of the range of \<^verbatim>\<open>int\<close>, the handler of the loop turns the exception into
  \<^verbatim>\<open>wrong_answer\<close> with the invalid-input message: the turn and the whole loop end the
  process with status 1 and that message on \<^verbatim>\<open>cerr\<close>. In no state does an exception
  leave the loop body or the loop.
\<close>

theorem parse_failure_rejected:
  assumes "input p = Returned line p1" and "stoi line = Inl e"
  shows "try_block line p1 = Thrown e p1 \<and>
         loop_body p =
           Exited 1 (p1\<lparr>cerr := cerr p1 @ ''Wrong Answer: '' @ msg_invalid_input @ [newline]\<rparr>) \<and>
         main_loop p =
           Exited 1 (p1\<lparr>cerr := cerr p1 @ ''Wrong Answer: '' @ msg_invalid_input @ [newline]\<rparr>) \<and>
         (\<forall>q e' q'. loop_body q \<noteq> Thrown e' q' \<and> main_loop q \<noteq> Thrown e' q')"
proof -
  from assms(2) have t: "try_block line p1 = Thrown e p1"
    by (simp add: try_block_def)
  from loop_body_parse_failure [OF assms] have
    l: "loop_body p =
           Exited 1 (p1\<lparr>cerr := cerr p1 @ ''Wrong Answer: '' @ msg_invalid_input @ [newline]\<rparr>)"
    by (simp add: wrong_answer_def)
  from main_loop_Exited [OF l] t l show ?thesis
    by (simp add: loop_body_not_Thrown main_loop_not_Thrown)
qed

lemma input_line:
  assumes "sint (query_count (judge p)) < sint (max_queries (judge p))"
    and "good (cin p)" and "buf (cin p) = l @ newline # rest" and "newline \<notin> set l"
  shows "input p = Returned l
           (p\<lparr>judge := (judge p)\<lparr>query_count := query_count (judge p) + 1\<rparr>,
              cin := (cin p)\<lparr>buf := rest\<rparr>\<rparr>)"
  using input_accepts [OF assms(1)] getline_line [OF assms(2,3,4)] by simp

lemma stoi_abc: "stoi ''abc'' = Inl Invalid_argument"
  by (simp add: stoi_def isspace_def isdigit_def)

theorem parse_failure_rejected_witness:
  "\<exists>p1. input (output msg_start (start (''abc'' @ [newline]))) = Returned ''abc'' p1 \<and>
     stoi ''abc'' = Inl Invalid_argument \<and>
     main (''abc'' @ [newline]) =
       Exited 1 (p1\<lparr>cerr := cerr p1 @ ''Wrong Answer: '' @ msg_invalid_input @ [newline]\<rparr>)"
proof -
  let ?p = "output msg_start (start (''abc'' @ [newline]))"
  have h: "sint (query_count (judge ?p)) < sint (max_queries (judge ?p))"
    by (simp add: start_def JudgeInterface_init_def)
  have g: "good (cin ?p)" by (simp add: start_def output_def good_def)
  have b: "buf (cin ?p) = ''abc'' @ newline # []" by (simp add: start_def output_def)
  have n: "newline \<notin> set ''abc''" by (simp add: newline_def)
  from input_line [OF h g b n] obtain p1 where i: "input ?p = Returned ''abc'' p1"
    by blast
  from parse_failure_rejected [OF i stoi_abc] have
    "main_loop ?p =
       Exited 1 (p1\<lparr>cerr := cerr p1 @ ''Wrong Answer: '' @ msg_invalid_input @ [newline]\<rparr>)"
    by blast
  then have "main (''abc'' @ [newline]) =
       Exited 1 (p1\<lparr>cerr := cerr p1 @ ''Wrong Answer: '' @ msg_invalid_input @ [newline]\<rparr>)"
    by (simp only: main_def)
  with i stoi_abc show ?thesis by blast
qed

subsection \<open>The feedback of the guessing game\<close>

text \<open>
  Claim C7. In a turn of the example loop whose read is accepted and whose line \<^verbatim>\<open>stoi\<close>
  reads as \<open>g\<close>, with the target 42: for \<open>g < 42\<close> the judge prints the "bigger" message
  and the loop goes on; for \<open>g > 42\<close> it prints the "smaller" message and the loop goes on;
  for \<open>g = 42\<close> it prints the "correct" message and the process ends with status 0.
\<close>

theorem guess_feedback:
  assumes "input p = Returned line p1" and "stoi line = Inr g"
  shows "(g < 42 \<longrightarrow>
            loop_body p = Returned () (output msg_bigger p1) \<and>
            main_loop p = main_loop (output msg_bigger p1)) \<and>
         (42 < g \<longrightarrow>
            loop_body p = Returned () (output msg_smaller p1) \<and>
            main_loop p = main_loop (output msg_smaller p1)) \<and>
         (g = 42 \<longrightarrow>
            loop_body p = Exited 0 (output msg_correct p1) \<and>
            main_loop p = Exited 0 (output msg_correct p1))"
proof (intro conjI impI)
  assume "g < 42"
  with assms show l: "loop_body p = Returned () (output msg_bigger p1)"
    by (simp add: loop_body_def try_block_def n_def)
  from main_loop_Returned [OF l] show "main_loop p = main_loop (output msg_bigger p1)" .
next
  assume "42 < g"
  with assms show l: "loop_body p = Returned () (output msg_smaller p1)"
    by (simp add: loop_body_def try_block_def n_def)
  from main_loop_Returned [OF l] show "main_loop p = main_loop (output msg_smaller p1)" .
next
  assume "g = 42"
  with assms show l: "loop_body p = Exited 0 (output msg_correct p1)"
    by (simp add: loop_body_def try_block_def n_def correct_answer_def)
  from main_loop_Exited [OF l] show "main_loop p = Exited 0 (output msg_correct p1)" .
qed

lemma stoi_50: "stoi ''50'' = Inr 50"
  by (simp add: stoi_def isspace_def isdigit_def digits_val_def digit_val_def)

lemma stoi_10: "stoi ''10'' = Inr 10"
  by (simp add: stoi_def isspace_def isdigit_def digits_val_def digit_val_def)

lemma stoi_42: "stoi ''42'' = Inr 42"
  by (simp add: stoi_def isspace_def isdigit_def digits_val_def digit_val_def)

theorem guess_feedback_witness:
  "(\<exists>p1. input (output msg_start (start (''50'' @ [newline]))) = Returned ''50'' p1 \<and>
      loop_body (output msg_start (start (''50'' @ [newline]))) =
        Returned () (output msg_smaller p1)) \<and>
   (\<exists>p1. input (output msg_start (start (''10'' @ [newline]))) = Returned ''10'' p1 \<and>
      loop_body (output msg_start (start (''10'' @ [newline]))) =
        Returned () (output msg_bigger p1)) \<and>
   (\<exists>p1. input (output msg_start (start (''42'' @ [newline]))) = Returned ''42'' p1 \<and>
      main (''42'' @ [newline]) = Exited 0 (output msg_correct p1) \<and>
      cout (output msg_correct p1) = msg_start @ [newline] @ msg_correct @ [newline])"
proof -
  have h: "\<And>s. sint (query_count (judge (output msg_start (start s))))
            < sint (max_queries (judge (output msg_start (start s))))"
    by (simp add: start_def JudgeInterface_init_def)
  have g: "\<And>s. good (cin (output msg_start (start s)))"
    by (simp add: start_def output_def good_def)
  have b: "\<And>l. buf (cin (output msg_start (start (l @ [newline])))) = l @ newline # []"
    by (simp add: start_def output_def)
  have n: "newline \<notin> set ''50''" "newline \<notin> set ''10''" "newline \<notin> set ''42''"
    by (simp_all add: newline_def)
  from input_line [OF h g b n(1)] obtain p50 where
    i50: "input (output msg_start (start (''50'' @ [newline]))) = Returned ''50'' p50"
    by blast
  have x50: "(42::int) < 50" by simp
  from guess_feedback [OF i50 stoi_50] x50 have
    "loop_body (output msg_start (start (''50'' @ [newline]))) = Returned () (output msg_smaller p50)"
    by blast
  with i50 have a: "\<exists>p1. input (output msg_start (start (''50'' @ [newline]))) = Returned ''50'' p1 \<and>
      loop_body (output msg_start (start (''50'' @ [newline]))) =
        Returned () (output msg_smaller p1)"
    by blast
  from input_line [OF h g b n(2)] obtain p10 where
    i10: "input (output msg_start (start (''10'' @ [newline]))) = Returned ''10'' p10"
    by blast
  have x10: "(10::int) < 42" by simp
  from guess_feedback [OF i10 stoi_10] x10 have
    "loop_body (output msg_start (start (''10'' @ [newline]))) = Returned () (output msg_bigger p10)"
    by blast
  with i10 have b': "\<exists>p1. input (output msg_start (start (''10'' @ [newline]))) = Returned ''10'' p1 \<and>
      loop_body (output msg_start (start (''10'' @ [newline]))) =
        Returned () (output msg_bigger p1)"
    by blast
  from input_line [OF h g b n(3)] have
    i42: "input (output msg_start (start (''42'' @ [newline]))) = Returned ''42''
       ((output msg_start (start (''42'' @ [newline])))
          \<lparr>judge := (judge (output msg_start (start (''42'' @ [newline]))))
             \<lparr>query_count := query_count (judge (output msg_start (start (''42'' @ [newline])))) + 1\<rparr>,
           cin := (cin (output msg_start (start (''42'' @ [newline]))))\<lparr>buf := []\<rparr>\<rparr>)"
    (is "_ = Returned _ ?p42") .
  from guess_feedback [OF i42 stoi_42] have
    "main_loop (output msg_start (start (''42'' @ [newline]))) = Exited 0 (output msg_correct ?p42)"
    by blast
  then have m: "main (''42'' @ [newline]) = Exited 0 (output msg_correct ?p42)"
    by (simp only: main_def)
  have c: "cout (output msg_correct ?p42) = msg_start @ [newline] @ msg_correct @ [newline]"
    by (simp add: output_def start_def)
  from i42 m c have c': "\<exists>p1. input (output msg_start (start (''42'' @ [newline]))) = Returned ''42'' p1 \<and>
      main (''42'' @ [newline]) = Exited 0 (output msg_correct p1) \<and>
      cout (output msg_correct p1) = msg_start @ [newline] @ msg_correct @ [newline]"
    by blast
  from a b' c' show ?thesis by blast
qed

lemma stoi_Nil: "stoi [] = Inl Invalid_argument"
  by (simp add: stoi_def)

subsection \<open>End of input\<close>

text \<open>
  Claim C8. With standard input exhausted and the limit not reached, \<^verbatim>\<open>input()\<close> still
  counts the call and returns the empty string, with \<^verbatim>\<open>failbit\<close> set on the stream and
  nothing else to tell the caller. \<^verbatim>\<open>stoi\<close> throws on the empty string, so the example
  loop ends the process with status 1 and the invalid-input message, the same as for a
  malformed line; it does not go on reading.
\<close>

theorem input_at_end_of_stream:
  assumes "sint (query_count (judge p)) < sint (max_queries (judge p))"
    and "buf (cin p) = []"
  shows "\<exists>p1. input p = Returned [] p1 \<and>
           sint (query_count (judge p1)) = sint (query_count (judge p)) + 1 \<and>
           buf (cin p1) = [] \<and> failbit (cin p1) \<and>
           stoi [] = Inl Invalid_argument \<and>
           main_loop p =
             Exited 1 (p1\<lparr>cerr := cerr p1 @ ''Wrong Answer: '' @ msg_invalid_input @ [newline]\<rparr>) \<and>
           cerr p1 = cerr p \<and> cout p1 = cout p"
proof -
  define p1 where "p1 = p\<lparr>judge := (judge p)\<lparr>query_count := query_count (judge p) + 1\<rparr>,
              cin := snd (getline (cin p))\<rparr>"
  from getline_empty [OF assms(2)] have e: "fst (getline (cin p)) = []"
    "buf (snd (getline (cin p))) = []" "failbit (snd (getline (cin p)))"
    by simp_all
  have i: "input p = Returned [] p1"
    using input_accepts [OF assms(1)] e(1) by (simp add: p1_def)
  have s: "sint (query_count (judge p1)) = sint (query_count (judge p)) + 1"
    using sint_succ_below [OF assms(1)] by (simp add: p1_def)
  have f: "buf (cin p1) = []" "failbit (cin p1)" "cerr p1 = cerr p" "cout p1 = cout p"
    using e by (simp_all add: p1_def)
  from loop_body_parse_failure [OF i stoi_Nil] have
    "loop_body p =
          Exited 1 (p1\<lparr>cerr := cerr p1 @ ''Wrong Answer: '' @ msg_invalid_input @ [newline]\<rparr>)"
    by (simp add: wrong_answer_def)
  then have m: "main_loop p =
          Exited 1 (p1\<lparr>cerr := cerr p1 @ ''Wrong Answer: '' @ msg_invalid_input @ [newline]\<rparr>)"
    by (rule main_loop_Exited)
  from i s f m stoi_Nil show ?thesis by blast
qed

theorem input_at_end_of_stream_witness:
  "\<exists>p1. input (output msg_start (start [])) = Returned [] p1 \<and>
     sint (query_count (judge p1)) = 1 \<and>
     main [] =
       Exited 1 (p1\<lparr>cerr := cerr p1 @ ''Wrong Answer: '' @ msg_invalid_input @ [newline]\<rparr>)"
proof -
  let ?p = "output msg_start (start [])"
  have h: "sint (query_count (judge ?p)) < sint (max_queries (judge ?p))"
    by (simp add: start_def JudgeInterface_init_def)
  have b: "buf (cin ?p) = []" by (simp add: start_def output_def)
  from input_at_end_of_stream [OF h b] obtain p1 where
    i: "input ?p = Returned [] p1"
    and s: "sint (query_count (judge p1)) = sint (query_count (judge ?p)) + 1"
    and m: "main_loop ?p =
             Exited 1 (p1\<lparr>cerr := cerr p1 @ ''Wrong Answer: '' @ msg_invalid_input @ [newline]\<rparr>)"
    by blast
  from s have s': "sint (query_count (judge p1)) = 1"
    by (simp add: start_def JudgeInterface_init_def)
  from m have m': "main [] =
       Exited 1 (p1\<lparr>cerr := cerr p1 @ ''Wrong Answer: '' @ msg_invalid_input @ [newline]\<rparr>)"
    by (simp only: main_def)
  from i s' m' show ?thesis by blast
qed

lemma isdigit_not_space_sign:
  "isdigit c \<Longrightarrow> \<not> isspace c \<and> c \<noteq> CHR ''-'' \<and> c \<noteq> CHR ''+''"
  by (auto simp: isdigit_def isspace_def)

lemma sign_not_space: "\<not> isspace (CHR ''-'')" "\<not> isspace (CHR ''+'')"
  by (simp_all add: isspace_def)

lemma takeWhile_digits:
  assumes "\<forall>c\<in>set ds. isdigit c" and "rest = [] \<or> \<not> isdigit (hd rest)"
  shows "takeWhile isdigit (ds @ rest) = ds"
proof -
  from assms(2) have "takeWhile isdigit rest = []" by (cases rest) auto
  with assms(1) show ?thesis by (simp add: takeWhile_append2)
qed

lemma stoi_no_space:
  assumes "sg = [] \<or> sg = ''+'' \<or> sg = ''-''"
    and "ds \<noteq> []" and "\<forall>c\<in>set ds. isdigit c"
    and "rest = [] \<or> \<not> isdigit (hd rest)"
    and "v = (if sg = ''-'' then - digits_val ds else digits_val ds)"
  shows "stoi (sg @ ds @ rest) =
           (if v < - (2 ^ 31) \<or> 2 ^ 31 - 1 < v then Inl Out_of_range else Inr v)"
proof -
  from assms(2) obtain d ds' where ds: "ds = d # ds'" by (cases ds) auto
  with assms(3) have d: "isdigit d" by simp
  note nd = isdigit_not_space_sign [OF d]
  note tw = takeWhile_digits [OF assms(3,4)]
  from assms(1) show ?thesis
  proof (elim disjE)
    assume sg: "sg = []"
    from tw have "takeWhile isdigit (d # ds' @ rest) = d # ds'"
      by (simp add: ds)
    then have "stoi (d # ds' @ rest) =
           (if digits_val (d # ds') < - (2 ^ 31) \<or> 2 ^ 31 - 1 < digits_val (d # ds')
            then Inl Out_of_range else Inr (digits_val (d # ds')))"
      using nd by (simp add: stoi_def Let_def del: takeWhile.simps)
    then show ?thesis
      by (simp add: sg ds assms(5))
  next
    assume sg: "sg = ''+''"
    then show ?thesis
      using tw assms(2) by (simp add: stoi_def Let_def sign_not_space assms(5))
  next
    assume sg: "sg = ''-''"
    then show ?thesis
      using tw assms(2) by (simp add: stoi_def Let_def sign_not_space assms(5))
  qed
qed

lemma stoi_skips_space:
  assumes "\<forall>c\<in>set ws. isspace c"
  shows "stoi (ws @ s) = stoi s"
proof -
  from assms have "dropWhile isspace (ws @ s) = dropWhile isspace s"
    by (simp add: dropWhile_append2)
  then show ?thesis by (simp add: stoi_def)
qed

lemma stoi_prefix:
  assumes "\<forall>c\<in>set ws. isspace c"
    and "sg = [] \<or> sg = ''+'' \<or> sg = ''-''"
    and "ds \<noteq> []" and "\<forall>c\<in>set ds. isdigit c"
    and "rest = [] \<or> \<not> isdigit (hd rest)"
    and "v = (if sg = ''-'' then - digits_val ds else digits_val ds)"
  shows "stoi (ws @ sg @ ds @ rest) =
           (if v < - (2 ^ 31) \<or> 2 ^ 31 - 1 < v then Inl Out_of_range else Inr v)"
  using stoi_skips_space [OF assms(1), of "sg @ ds @ rest"] stoi_no_space [OF assms(2-6)]
  by simp

subsection \<open>Text after the number\<close>

text \<open>
  Claim C10. Let a line be white space \<open>ws\<close>, an optional sign \<open>sg\<close>, a non-empty run of
  digits \<open>ds\<close> and then any \<open>rest\<close> that does not start with a digit, and let \<open>v\<close> be
  the value of the digits, negated under a minus sign. If \<open>v\<close> fits \<^verbatim>\<open>int\<close>, then
  \<^verbatim>\<open>stoi\<close> reads the whole line as \<open>v\<close>: it skips the white space, takes the sign and
  ignores \<open>rest\<close>. A turn of the example loop that receives the line answers for the
  guess \<open>v\<close> and does not call \<^verbatim>\<open>wrong_answer\<close>; for \<open>v = 42\<close> the process ends with
  status 0. If \<open>v\<close> does not fit \<^verbatim>\<open>int\<close>, \<^verbatim>\<open>stoi\<close> throws \<^verbatim>\<open>std::out_of_range\<close>.
\<close>

theorem stoi_integer_prefix:
  assumes "\<forall>c\<in>set ws. isspace c"
    and "sg = [] \<or> sg = ''+'' \<or> sg = ''-''"
    and "ds \<noteq> []" and "\<forall>c\<in>set ds. isdigit c"
    and "rest = [] \<or> \<not> isdigit (hd rest)"
    and "v = (if sg = ''-'' then - digits_val ds else digits_val ds)"
  shows "stoi (ws @ sg @ ds @ rest) =
           (if v < - (2 ^ 31) \<or> 2 ^ 31 - 1 < v then Inl Out_of_range else Inr v) \<and>
         (- (2 ^ 31) \<le> v \<and> v \<le> 2 ^ 31 - 1 \<longrightarrow>
            stoi (ws @ sg @ ds @ rest) = Inr v \<and>
            (\<forall>p p1. input p = Returned (ws @ sg @ ds @ rest) p1 \<longrightarrow>
            try_block (ws @ sg @ ds @ rest) p1 =
              (if v = 42 then Exited 0 (output msg_correct p1)
               else if v < 42 then Returned () (output msg_bigger p1)
               else Returned () (output msg_smaller p1)) \<and>
            loop_body p =
              (if v = 42 then Exited 0 (output msg_correct p1)
               else if v < 42 then Returned () (output msg_bigger p1)
               else Returned () (output msg_smaller p1)) \<and>
            loop_body p \<noteq> wrong_answer msg_invalid_input p1 \<and>
            (v = 42 \<longrightarrow> main_loop p = Exited 0 (output msg_correct p1))))"
proof -
  note a = stoi_prefix [OF assms]
  have b: "- (2 ^ 31) \<le> v \<and> v \<le> 2 ^ 31 - 1 \<longrightarrow>
            stoi (ws @ sg @ ds @ rest) = Inr v \<and>
            (\<forall>p p1. input p = Returned (ws @ sg @ ds @ rest) p1 \<longrightarrow>
            try_block (ws @ sg @ ds @ rest) p1 =
              (if v = 42 then Exited 0 (output msg_correct p1)
               else if v < 42 then Returned () (output msg_bigger p1)
               else Returned () (output msg_smaller p1)) \<and>
            loop_body p =
              (if v = 42 then Exited 0 (output msg_correct p1)
               else if v < 42 then Returned () (output msg_bigger p1)
               else Returned () (output msg_smaller p1)) \<and>
            loop_body p \<noteq> wrong_answer msg_invalid_input p1 \<and>
            (v = 42 \<longrightarrow> main_loop p = Exited 0 (output msg_correct p1)))"
  proof (intro impI conjI allI)
    assume r: "- (2 ^ 31) \<le> v \<and> v \<le> 2 ^ 31 - 1"
    with a show s: "stoi (ws @ sg @ ds @ rest) = Inr v" by simp
    fix p p1
    assume i: "input p = Returned (ws @ sg @ ds @ rest) p1"
    from s show t: "try_block (ws @ sg @ ds @ rest) p1 =
              (if v = 42 then Exited 0 (output msg_correct p1)
               else if v < 42 then Returned () (output msg_bigger p1)
               else Returned () (output msg_smaller p1))"
      by (simp add: try_block_def n_def correct_answer_def)
    from i t show l: "loop_body p =
              (if v = 42 then Exited 0 (output msg_correct p1)
               else if v < 42 then Returned () (output msg_bigger p1)
               else Returned () (output msg_smaller p1))"
      by (simp add: loop_body_def)
    from l show "loop_body p \<noteq> wrong_answer msg_invalid_input p1"
      by (simp add: wrong_answer_def)
    assume "v = 42"
    with l have "loop_body p = Exited 0 (output msg_correct p1)" by simp
    then show "main_loop p = Exited 0 (output msg_correct p1)" by (rule main_loop_Exited)
  qed
  from a b show ?thesis by blast
qed

lemma all_digits_42: "\<forall>c\<in>set ''42''. isdigit c"
  by (simp add: isdigit_def)

lemma all_digits_7: "\<forall>c\<in>set ''7''. isdigit c"
  by (simp add: isdigit_def)

lemma not_digit_x: "''xyz'' = [] \<or> \<not> isdigit (hd ''xyz'')"
  by (simp add: isdigit_def)

lemma not_digit_space: "'' '' = [] \<or> \<not> isdigit (hd '' '')"
  by (simp add: isdigit_def)

lemma digits_val_42: "digits_val ''42'' = 42"
  by (simp add: digits_val_def digit_val_def)

lemma digits_val_7: "digits_val ''7'' = 7"
  by (simp add: digits_val_def digit_val_def)

lemma all_digits_3e9: "\<forall>c\<in>set ''3000000000''. isdigit c"
  by (simp add: isdigit_def)

lemma digits_val_3e9: "digits_val ''3000000000'' = 3000000000"
  by (simp add: digits_val_def digit_val_def)

theorem stoi_integer_prefix_witness:
  "stoi ''42xyz'' = Inr 42 \<and>
   stoi '' -7xyz'' = Inr (- 7) \<and>
   stoi ''+42 '' = Inr 42 \<and>
   stoi ''3000000000xyz'' = Inl Out_of_range \<and>
   (\<exists>p1. input (output msg_start (start (''42xyz'' @ [newline]))) = Returned ''42xyz'' p1 \<and>
      main (''42xyz'' @ [newline]) = Exited 0 (output msg_correct p1))"
proof -
  let ?p = "output msg_start (start (''42xyz'' @ [newline]))"
  have a1: "\<forall>c\<in>set []. isspace c" by simp
  have a2: "[] = [] \<or> [] = ''+'' \<or> [] = ''-''" by simp
  have a3: "''42'' \<noteq> []" by simp
  have a6: "(42::int) = (if [] = ''-'' then - digits_val ''42'' else digits_val ''42'')"
    by (simp add: digits_val_42)
  have a7: "- (2 ^ 31) \<le> (42::int) \<and> (42::int) \<le> 2 ^ 31 - 1" by simp
  note t = stoi_integer_prefix [OF a1 a2 a3 all_digits_42 not_digit_x a6]
  from t a7 have s: "stoi ''42xyz'' = Inr 42" by simp
  have b1: "\<forall>c\<in>set '' ''. isspace c" by (simp add: isspace_def)
  have b2: "''-'' = [] \<or> ''-'' = ''+'' \<or> ''-'' = ''-''" by simp
  have b3: "''7'' \<noteq> []" by simp
  have b6: "(- 7::int) = (if ''-'' = ''-'' then - digits_val ''7'' else digits_val ''7'')"
    by (simp add: digits_val_7)
  from stoi_integer_prefix [OF b1 b2 b3 all_digits_7 not_digit_x b6]
  have s7: "stoi '' -7xyz'' = Inr (- 7)" by simp
  have c2: "''+'' = [] \<or> ''+'' = ''+'' \<or> ''+'' = ''-''" by simp
  have c6: "(42::int) = (if ''+'' = ''-'' then - digits_val ''42'' else digits_val ''42'')"
    by (simp add: digits_val_42)
  from stoi_integer_prefix [OF a1 c2 a3 all_digits_42 not_digit_space c6]
  have sp: "stoi ''+42 '' = Inr 42" by simp
  have d3: "''3000000000'' \<noteq> []" by simp
  have d6: "(3000000000::int) =
      (if [] = ''-'' then - digits_val ''3000000000'' else digits_val ''3000000000'')"
    by (simp add: digits_val_3e9)
  from stoi_integer_prefix [OF a1 a2 d3 all_digits_3e9 not_digit_x d6]
  have so: "stoi ''3000000000xyz'' = Inl Out_of_range" by simp
  have h: "sint (query_count (judge ?p)) < sint (max_queries (judge ?p))"
    by (simp add: start_def JudgeInterface_init_def)
  have g: "good (cin ?p)" by (simp add: start_def output_def good_def)
  have b: "buf (cin ?p) = ''42xyz'' @ newline # []" by (simp add: start_def output_def)
  have nl: "newline \<notin> set ''42xyz''" by (simp add: newline_def)
  from input_line [OF h g b nl] obtain p1 where i: "input ?p = Returned ''42xyz'' p1"
    by blast
  then have "input ?p = Returned ([] @ [] @ ''42'' @ ''xyz'') p1" by simp
  with t a7 have "main_loop ?p = Exited 0 (output msg_correct p1)" by simp
  then have m: "main (''42xyz'' @ [newline]) = Exited 0 (output msg_correct p1)"
    by (simp only: main_def)
  from s s7 sp so i m show ?thesis by blast
qed

lemma input_cout: "cout (state_of (input p)) = cout p"
proof (cases "sint (query_count (judge p)) < sint (max_queries (judge p))")
  case True
  from input_accepts [OF this] show ?thesis by simp
next
  case False
  then have "sint (max_queries (judge p)) \<le> sint (query_count (judge p))" by simp
  from input_rejects [OF this] show ?thesis by simp
qed

lemma loop_body_cout:
  "\<exists>ms. set ms \<subseteq> {msg_bigger, msg_smaller, msg_correct} \<and>
        cout (state_of (loop_body p)) = cout p @ concat (map (\<lambda>m. m @ [newline]) ms)"
proof -
  from input_cases [of p] show ?thesis
  proof (elim disjE exE)
    fix line p1
    assume i: "input p = Returned line p1"
    then have c: "cout p1 = cout p" by (simp add: input_Returned_iff)
    show ?thesis
    proof (cases "stoi line")
      case (Inl e)
      with i have "loop_body p = wrong_answer msg_invalid_input p1"
        by (rule loop_body_parse_failure)
      with c have "cout (state_of (loop_body p)) = cout p @ concat (map (\<lambda>m. m @ [newline]) [])"
        by (simp add: wrong_answer_def)
      then show ?thesis by (intro exI [of _ "[]"]) simp
    next
      case (Inr g)
      with i c have
        "cout (state_of (loop_body p)) = cout p @ concat (map (\<lambda>m. m @ [newline]) [msg_bigger]) \<or>
         cout (state_of (loop_body p)) = cout p @ concat (map (\<lambda>m. m @ [newline]) [msg_smaller]) \<or>
         cout (state_of (loop_body p)) = cout p @ concat (map (\<lambda>m. m @ [newline]) [msg_correct])"
        by (simp add: loop_body_def try_block_def correct_answer_def output_def)
      then show ?thesis
      proof (elim disjE)
        assume "cout (state_of (loop_body p)) = cout p @ concat (map (\<lambda>m. m @ [newline]) [msg_bigger])"
        then show ?thesis by (intro exI [of _ "[msg_bigger]"]) simp
      next
        assume "cout (state_of (loop_body p)) = cout p @ concat (map (\<lambda>m. m @ [newline]) [msg_smaller])"
        then show ?thesis by (intro exI [of _ "[msg_smaller]"]) simp
      next
        assume "cout (state_of (loop_body p)) = cout p @ concat (map (\<lambda>m. m @ [newline]) [msg_correct])"
        then show ?thesis by (intro exI [of _ "[msg_correct]"]) simp
      qed
    qed
  next
    assume "input p = wrong_answer msg_query_limit p"
    then have "loop_body p = wrong_answer msg_query_limit p"
      by (simp add: loop_body_def wrong_answer_def)
    then have "cout (state_of (loop_body p)) = cout p @ concat (map (\<lambda>m. m @ [newline]) [])"
      by (simp add: wrong_answer_def)
    then show ?thesis by (intro exI [of _ "[]"]) simp
  qed
qed

lemma main_loop_cout:
  "\<exists>ms. set ms \<subseteq> {msg_bigger, msg_smaller, msg_correct} \<and>
        cout (state_of (main_loop p)) = cout p @ concat (map (\<lambda>m. m @ [newline]) ms)"
proof (induction p rule: main_loop.induct)
  case (1 p)
  from loop_body_cout [of p] obtain ms0 where
    s0: "set ms0 \<subseteq> {msg_bigger, msg_smaller, msg_correct}"
    and c0: "cout (state_of (loop_body p)) = cout p @ concat (map (\<lambda>m. m @ [newline]) ms0)"
    by blast
  show ?case
  proof (cases "loop_body p")
    case (Returned u p')
    from "1.IH" [OF Returned] obtain ms1 where
      s1: "set ms1 \<subseteq> {msg_bigger, msg_smaller, msg_correct}"
      and c1: "cout (state_of (main_loop p')) = cout p' @ concat (map (\<lambda>m. m @ [newline]) ms1)"
      by blast
    from Returned c0 have "cout p' = cout p @ concat (map (\<lambda>m. m @ [newline]) ms0)" by simp
    with c1 main_loop_Returned [OF Returned] have
      "cout (state_of (main_loop p)) = cout p @ concat (map (\<lambda>m. m @ [newline]) (ms0 @ ms1))"
      by simp
    moreover from s0 s1 have "set (ms0 @ ms1) \<subseteq> {msg_bigger, msg_smaller, msg_correct}"
      by simp
    ultimately show ?thesis by blast
  next
    case (Exited st q)
    from main_loop_Exited [OF Exited] Exited c0 have
      "cout (state_of (main_loop p)) = cout p @ concat (map (\<lambda>m. m @ [newline]) ms0)"
      by simp
    with s0 show ?thesis by blast
  next
    case (Thrown e q)
    with loop_body_not_Thrown show ?thesis by blast
  qed
qed

subsection \<open>Where the reason goes\<close>

text \<open>
  Claim C6. For every reason text, \<^verbatim>\<open>wrong_answer\<close> appends \<^verbatim>\<open>"Wrong Answer: "\<close>, the
  reason and a newline to \<^verbatim>\<open>cerr\<close> and leaves \<^verbatim>\<open>cout\<close>, \<^verbatim>\<open>cin\<close> and the judge
  object untouched; \<^verbatim>\<open>output\<close>, the only writer of \<^verbatim>\<open>cout\<close>, writes its message and
  a newline there and leaves \<^verbatim>\<open>cerr\<close> untouched. So a rejected read leaves
  \<^verbatim>\<open>cout\<close> as it was, and all that the example loop ever adds to \<^verbatim>\<open>cout\<close>, however
  it ends, is a sequence of its three feedback lines.
\<close>

theorem wrong_answer_cerr_only:
  "cout (state_of (wrong_answer reason p :: 'a outcome)) = cout p \<and>
   cerr (state_of (wrong_answer reason p :: 'a outcome)) =
     cerr p @ ''Wrong Answer: '' @ reason @ [newline] \<and>
   cin (state_of (wrong_answer reason p :: 'a outcome)) = cin p \<and>
   judge (state_of (wrong_answer reason p :: 'a outcome)) = judge p \<and>
   (wrong_answer reason p :: 'a outcome) =
     Exited 1 (p\<lparr>cerr := cerr p @ ''Wrong Answer: '' @ reason @ [newline]\<rparr>) \<and>
   cout (output message p) = cout p @ message @ [newline] \<and>
   cerr (output message p) = cerr p \<and>
   cout (state_of (input p)) = cout p \<and>
   (\<exists>ms. set ms \<subseteq> {msg_bigger, msg_smaller, msg_correct} \<and>
      cout (state_of (main_loop p)) = cout p @ concat (map (\<lambda>m. m @ [newline]) ms))"
  using main_loop_cout [of p] input_cout [of p]
  by (simp add: wrong_answer_def output_def)

end
